theory Spec2Isabelle
  imports Main "HOL-Library.Word" "HOL-Library.Product_Lexorder"
begin

section \<open>Chunk tasks of the batch scheduler (scheduler_task_info.h)\<close>

subsection \<open>Data model\<close>

text \<open>
  \<^verbatim>\<open>enum class TaskStatus { PENDING = 0, WAIT = 1, IN_PROGRESS = 2, COMPLETED = 3, FAILED = 4 }\<close>
\<close>

datatype TaskStatus = PENDING | WAIT | IN_PROGRESS | COMPLETED | FAILED

text \<open>
  Heap objects are named by addresses. A \<^verbatim>\<open>std::shared_ptr\<close> is an optional address:
  \<open>None\<close> is the null pointer, which is what a default-constructed shared pointer holds.
\<close>

type_synonym addr = nat

text \<open>
  \<^verbatim>\<open>struct SycChunkTask\<close>: the fields in declaration order. \<^verbatim>\<open>size_t\<close> is an unsigned
  64-bit word, \<^verbatim>\<open>int32_t\<close> a 32-bit word read in two's complement. The atomic status is
  the value it holds.
\<close>

record SycChunkTask =
  input_chunk :: "addr option"
  embeddig :: "addr option"
  chunk_hash :: string
  cmpl_id :: "64 word"
  priority :: "32 word"
  is_last_chunk :: bool
  status :: TaskStatus

text \<open>
  The constructor
  \<^verbatim>\<open>SycChunkTask(chunk, cmpl_id, chunk_hash, priority)
      : input_chunk(chunk), cmpl_id(cmpl_id), chunk_hash(chunk_hash), priority(priority) {}\<close>
  initialises the four named members; \<open>embeddig\<close> is default-constructed (null),
  \<open>is_last_chunk\<close> and \<open>status\<close> take their default member initialisers.
\<close>

definition new_SycChunkTask ::
  "addr option \<Rightarrow> 64 word \<Rightarrow> string \<Rightarrow> 32 word \<Rightarrow> SycChunkTask" where
  "new_SycChunkTask chunk cid h prio =
     \<lparr>input_chunk = chunk, embeddig = None, chunk_hash = h, cmpl_id = cid,
      priority = prio, is_last_chunk = False, status = PENDING\<rparr>"

subsection \<open>Comparison operators\<close>

text \<open>
  \<^verbatim>\<open>bool operator<(const SycChunkTask& other) const {
      if (priority != other.priority) return priority < other.priority;
      return cmpl_id < other.cmpl_id;
  }\<close>
  The priorities are compared as signed 32-bit integers, the ids as unsigned ones.
\<close>

definition task_less :: "SycChunkTask \<Rightarrow> SycChunkTask \<Rightarrow> bool" where
  "task_less a b =
     (if priority a \<noteq> priority b then priority a <s priority b
      else cmpl_id a < cmpl_id b)"

text \<open>
  \<^verbatim>\<open>bool operator==(const SycChunkTask& other) const
      { return cmpl_id == other.cmpl_id && priority == other.priority; }\<close>
\<close>

definition task_eq :: "SycChunkTask \<Rightarrow> SycChunkTask \<Rightarrow> bool" where
  "task_eq a b = (cmpl_id a = cmpl_id b \<and> priority a = priority b)"

subsection \<open>The heap and the functions declared elsewhere\<close>

text \<open>
  The chunks (\<^verbatim>\<open>mtmd_input_chunk\<close>) live on the heap; their payload is opaque (the type
  variable \<open>'c\<close>). The heap is an association list from addresses to chunks, the newest
  allocation first. Besides the heap, the world records the calls the constructor makes to
  the two functions it does not define itself.
\<close>

datatype call = Call_chunk_hashs | Call_mtmd_input_chunk_copy addr

record 'c world =
  heap :: "(addr \<times> 'c) list"
  calls :: "call list"

text \<open>An address that is not in use: one above the largest one in use (never 0, the null address).\<close>

definition fresh :: "(addr \<times> 'c) list \<Rightarrow> addr" where
  "fresh h = Suc (fold max (map fst h) 0)"

text \<open>
  Modelled from the spec: \<^verbatim>\<open>mtmd_input_chunk_copy\<close> is not defined in this header (it
  belongs to the multimodal library the header builds on). The specification says the
  builder deep-copies the chunk so that the task owns memory independent of the producer:
  the copy is a new allocation that holds the value of the chunk pointed to. Copying through
  a pointer to no live chunk is undefined behaviour, the value \<open>None\<close>.
\<close>

definition mtmd_input_chunk_copy :: "addr \<Rightarrow> 'c world \<Rightarrow> (addr \<times> 'c world) option" where
  "mtmd_input_chunk_copy chunk_ptr w =
     (case map_of (heap w) chunk_ptr of
        None \<Rightarrow> None
      | Some v \<Rightarrow>
          (let a = fresh (heap w)
           in Some (a, w\<lparr>heap := (a, v) # heap w,
                         calls := calls w @ [Call_mtmd_input_chunk_copy chunk_ptr]\<rparr>)))"

text \<open>The chunks a sequence of pointers points to; \<open>None\<close> when one of them points to no live chunk.\<close>

fun deref_all :: "(addr \<times> 'c) list \<Rightarrow> addr list \<Rightarrow> 'c list option" where
  "deref_all h [] = Some []"
| "deref_all h (p # ps) =
     (case map_of h p of
        None \<Rightarrow> None
      | Some v \<Rightarrow> (case deref_all h ps of None \<Rightarrow> None | Some vs \<Rightarrow> Some (v # vs)))"

subsection \<open>The batch builder\<close>

text \<open>\<^verbatim>\<open>struct BatchSchedulerInput { std::vector<std::shared_ptr<SycChunkTask>> input_chunks; ... }\<close>\<close>

record BatchSchedulerInput =
  input_chunks :: "SycChunkTask list"

text \<open>What the constructor cannot do in C++ without undefined behaviour is a fault of the model.\<close>

datatype fault = Dead_chunk_pointer addr | Hash_index_out_of_range nat

text \<open>\<^verbatim>\<open>input_chunks.back()->is_last_chunk = true\<close>, on a vector that has a last element.\<close>

definition mark_back :: "SycChunkTask list \<Rightarrow> SycChunkTask list" where
  "mark_back ts = butlast ts @ [(last ts)\<lparr>is_last_chunk := True\<rparr>]"

text \<open>
  The loop of the constructor, from index \<open>i\<close> on:
  \<^verbatim>\<open>for (size_t i = 0; i < chunks->size(); ++i) {
      const mtmd_input_chunk* chunk_ptr = (*chunks)[i];
      auto chunk = std::shared_ptr<mtmd_input_chunk>(mtmd_input_chunk_copy(chunk_ptr), mtmd_input_chunk_free);
      input_chunks.emplace_back(std::make_shared<SycChunkTask>(chunk, cmpl_id, hashs[i], prio));
      if (i == chunks->size() - 1) input_chunks.back()->is_last_chunk = true;
  }\<close>
  The index is a natural number: it stays below the size of the vector, and the difference
  \<open>chunks->size() - 1\<close> is read only inside the loop, where the size is at least 1, so
  nothing wraps around.
\<close>

function build_loop ::
  "addr list \<Rightarrow> string list \<Rightarrow> 64 word \<Rightarrow> 32 word \<Rightarrow> nat \<Rightarrow> SycChunkTask list \<Rightarrow> 'c world \<Rightarrow>
     fault + (SycChunkTask list \<times> 'c world)" where
  "build_loop chunks hashs cid prio i ts w =
     (if i < length chunks then
        (let chunk_ptr = chunks ! i
         in case mtmd_input_chunk_copy chunk_ptr w of
              None \<Rightarrow> Inl (Dead_chunk_pointer chunk_ptr)
            | Some (chunk, w') \<Rightarrow>
                if i < length hashs then
                  (let pushed = ts @ [new_SycChunkTask (Some chunk) cid (hashs ! i) prio];
                       marked = (if i = length chunks - 1 then mark_back pushed else pushed)
                   in build_loop chunks hashs cid prio (Suc i) marked w')
                else Inl (Hash_index_out_of_range i))
      else Inr (ts, w))"
  by pat_completeness auto
termination
  by (relation "measure (\<lambda>(chunks, hashs, cid, prio, i, ts, w). length chunks - i)") auto

text \<open>
  \<^verbatim>\<open>BatchSchedulerInput(std::shared_ptr<mtmd::input_chunks> chunks, size_t cmpl_id, int32_t prio = 0) {
      if (!chunks) return;
      auto hashs = chunk_hashs(chunks.get());
      for (...) {...}
  }\<close>
  The shared pointer \<open>chunks\<close> is \<open>None\<close> when null, else the addresses of the chunks of the
  sequence, in order; \<open>cid\<close> is the argument \<^verbatim>\<open>cmpl_id\<close>. The priority is optional: an
  omitted argument is the default 0.
  \<^verbatim>\<open>chunk_hashs\<close> is declared in utils/chunk-hash.h, not in this header, and is a parameter
  of the model: a function from the chunks of the sequence to their fingerprints. It reads
  the chunks, so a pointer of the sequence to no live chunk is a fault already there. The
  call is recorded before the loop starts.
\<close>

definition new_BatchSchedulerInput ::
  "('c list \<Rightarrow> string list) \<Rightarrow> addr list option \<Rightarrow> 64 word \<Rightarrow> 32 word option \<Rightarrow> 'c world \<Rightarrow>
     fault + (BatchSchedulerInput \<times> 'c world)" where
  "new_BatchSchedulerInput chunk_hashs chunks cid prio_arg w =
     (let prio = (case prio_arg of None \<Rightarrow> 0 | Some p \<Rightarrow> p)
      in case chunks of
           None \<Rightarrow> Inr (\<lparr>input_chunks = []\<rparr>, w)
         | Some ptrs \<Rightarrow>
             (case deref_all (heap w) ptrs of
                None \<Rightarrow> Inl (Dead_chunk_pointer (hd (filter (\<lambda>p. map_of (heap w) p = None) ptrs)))
              | Some vs \<Rightarrow>
                  (let hashs = chunk_hashs vs;
                       w1 = w\<lparr>calls := calls w @ [Call_chunk_hashs]\<rparr>
                   in case build_loop ptrs hashs cid prio 0 [] w1 of
                        Inl e \<Rightarrow> Inl e
                      | Inr (ts, w') \<Rightarrow> Inr (\<lparr>input_chunks = ts\<rparr>, w'))))"

subsection \<open>Status transitions\<close>

text \<open>The terminal states are COMPLETED and FAILED.\<close>

definition is_terminal :: "TaskStatus \<Rightarrow> bool" where
  "is_terminal s \<longleftrightarrow> s = COMPLETED \<or> s = FAILED"

text \<open>
  Modelled from the spec: the code that changes the status of a task (the scheduler queue
  and the completion callbacks) is not in this header, which declares the enum and the field
  \<^verbatim>\<open>std::atomic<TaskStatus> status\<close> only. The specification gives the transitions
  PENDING \<rightarrow> WAIT \<rightarrow> IN_PROGRESS \<rightarrow> COMPLETED | FAILED, skipping no state, except that a
  deduplicated task may move directly from WAIT to COMPLETED or FAILED.
\<close>

fun transition_allowed :: "TaskStatus \<Rightarrow> TaskStatus \<Rightarrow> bool" where
  "transition_allowed PENDING WAIT = True"
| "transition_allowed WAIT IN_PROGRESS = True"
| "transition_allowed WAIT COMPLETED = True"
| "transition_allowed WAIT FAILED = True"
| "transition_allowed IN_PROGRESS COMPLETED = True"
| "transition_allowed IN_PROGRESS FAILED = True"
| "transition_allowed _ _ = False"

text \<open>
  Modelled from the spec: a write of the status, which the header does not define. The
  specification has every write be a compare-and-set guarded by "only transition forward":
  a write along one of the transitions stores the new state, any other write leaves the
  task as it is.
\<close>

definition try_set_status :: "TaskStatus \<Rightarrow> SycChunkTask \<Rightarrow> SycChunkTask" where
  "try_set_status s t = (if transition_allowed (status t) s then t\<lparr>status := s\<rparr> else t)"

text \<open>How far a state is along the chain; the two terminal states are equally far.\<close>

fun stage :: "TaskStatus \<Rightarrow> nat" where
  "stage PENDING = 0"
| "stage WAIT = 1"
| "stage IN_PROGRESS = 2"
| "stage COMPLETED = 3"
| "stage FAILED = 3"

subsection \<open>Notions used in the statements\<close>

text \<open>
  The task the builder is expected to make of one chunk: the copy at address \<open>a\<close>, the
  given request id, fingerprint and priority, the last-chunk flag as given, and everything
  else as the constructor of the task leaves it.
\<close>

definition built_task :: "addr \<Rightarrow> 64 word \<Rightarrow> string \<Rightarrow> 32 word \<Rightarrow> bool \<Rightarrow> SycChunkTask" where
  "built_task a cid h prio lst =
     \<lparr>input_chunk = Some a, embeddig = None, chunk_hash = h, cmpl_id = cid,
      priority = prio, is_last_chunk = lst, status = PENDING\<rparr>"

text \<open>A world with two live chunks, used as a concrete input.\<close>

definition sample_world :: "string world" where
  "sample_world = \<lparr>heap = [(3, ''image''), (1, ''text'')], calls = []\<rparr>"

text \<open>
  The scheduling key in the words of the specification: the pair of the priority and the
  request id, as mathematical integers, ordered lexicographically (the order of
  \<open>Product_Lexorder\<close>).
\<close>

definition sched_key :: "SycChunkTask \<Rightarrow> int \<times> nat" where
  "sched_key t = (sint (priority t), unat (cmpl_id t))"

text \<open>A task with the given priority, request id and fingerprint, as the constructor builds it.\<close>

definition sample_task :: "32 word \<Rightarrow> 64 word \<Rightarrow> string \<Rightarrow> SycChunkTask" where
  "sample_task prio cid h = new_SycChunkTask None cid h prio"

section \<open>Properties of the comparison operators\<close>

lemma sint_priority_eq_iff: "sint (p :: 32 word) = sint q \<longleftrightarrow> p = q"
  by (rule signed_word_eqI iffI | simp)+

lemma task_less_key: "task_less a b \<longleftrightarrow> sched_key a < sched_key b"
proof (cases "priority a = priority b")
  case True
  then show ?thesis
    by (simp add: task_less_def sched_key_def less_prod_def word_less_nat_alt)
next
  case False
  then have "sint (priority a) \<noteq> sint (priority b)"
    by (simp add: sint_priority_eq_iff)
  with False show ?thesis
    by (auto simp add: task_less_def sched_key_def less_prod_def word_sless_alt)
qed

lemma unat_cmpl_id_eq_iff: "unat (c :: 64 word) = unat d \<longleftrightarrow> c = d"
  by (rule unsigned_word_eqI iffI | simp)+

lemma task_eq_key: "task_eq a b \<longleftrightarrow> sched_key a = sched_key b"
  by (auto simp add: task_eq_def sched_key_def sint_priority_eq_iff unat_cmpl_id_eq_iff)

lemma task_less_irrefl: "\<not> task_less a a"
  by (simp add: task_less_key)

lemma task_less_trans: "task_less a b \<Longrightarrow> task_less b c \<Longrightarrow> task_less a c"
  unfolding task_less_key by (rule less_trans)

lemma task_trichotomy: "task_less a b \<or> task_less b a \<or> task_eq a b"
  using less_linear [of "sched_key a" "sched_key b"]
  by (auto simp add: task_less_key task_eq_key)

lemma task_eq_iff_incomparable: "task_eq a b \<longleftrightarrow> \<not> task_less a b \<and> \<not> task_less b a"
  unfolding task_less_key task_eq_key by auto

text \<open>There are finitely many keys, since the priority and the request id are machine words.\<close>

lemma finite_sched_keys: "finite (range sched_key)"
proof (rule finite_subset)
  show "range sched_key \<subseteq> range (sint :: 32 word \<Rightarrow> int) \<times> range (unat :: 64 word \<Rightarrow> nat)"
    by (auto simp add: sched_key_def)
  show "finite (range (sint :: 32 word \<Rightarrow> int) \<times> range (unat :: 64 word \<Rightarrow> nat))"
    by simp
qed

lemma sample_task_sel [simp]:
  "priority (sample_task prio cid h) = prio"
  "cmpl_id (sample_task prio cid h) = cid"
  "chunk_hash (sample_task prio cid h) = h"
  by (simp_all add: sample_task_def new_SycChunkTask_def)

subsection \<open>The order is the lexicographic one\<close>

text \<open>
  Claim C1. For any two tasks, \<open>a < b\<close> holds exactly when the pair (priority, request id)
  of \<open>a\<close> is lexicographically smaller than that of \<open>b\<close>, the priority being the
  primary key and the request id the secondary one, both ascending. Hence, in any set of
  tasks, a task is minimal under \<open><\<close> (no task of the set is smaller) exactly when its
  pair is the lowest pair of the set.
\<close>

theorem operator_less_lexicographic:
  "(task_less a b \<longleftrightarrow>
      sint (priority a) < sint (priority b) \<or>
      sint (priority a) = sint (priority b) \<and> unat (cmpl_id a) < unat (cmpl_id b)) \<and>
   (task_less a b \<longleftrightarrow> sched_key a < sched_key b) \<and>
   (m \<in> S \<longrightarrow>
      ((\<forall>t\<in>S. \<not> task_less t m) \<longleftrightarrow> sched_key m = Min (sched_key ` S)))"
proof (intro conjI impI)
  show "task_less a b \<longleftrightarrow> sched_key a < sched_key b"
    by (rule task_less_key)
  then show "task_less a b \<longleftrightarrow>
      sint (priority a) < sint (priority b) \<or>
      sint (priority a) = sint (priority b) \<and> unat (cmpl_id a) < unat (cmpl_id b)"
    by (auto simp add: sched_key_def less_prod_def)
next
  assume "m \<in> S"
  then have mem: "sched_key m \<in> sched_key ` S"
    by simp
  have fin: "finite (sched_key ` S)"
    by (rule finite_subset [OF _ finite_sched_keys]) auto
  show "(\<forall>t\<in>S. \<not> task_less t m) \<longleftrightarrow> sched_key m = Min (sched_key ` S)"
  proof
    assume "\<forall>t\<in>S. \<not> task_less t m"
    then have "\<forall>k\<in>sched_key ` S. sched_key m \<le> k"
      by (auto simp add: task_less_key not_less)
    with fin mem show "sched_key m = Min (sched_key ` S)"
      by (auto intro: Min_eqI [symmetric])
  next
    assume eq: "sched_key m = Min (sched_key ` S)"
    show "\<forall>t\<in>S. \<not> task_less t m"
    proof
      fix t assume "t \<in> S"
      with fin have "Min (sched_key ` S) \<le> sched_key t"
        by simp
      with eq show "\<not> task_less t m"
        by (simp add: task_less_key not_less)
    qed
  qed
qed

text \<open>
  The example of the specification: of the tasks (5, 1), (2, 2) and (2, 1), written as
  (priority, request id), the third is the minimal one.
\<close>

theorem operator_less_lexicographic_witness:
  "task_less (sample_task 2 1 ''x'') (sample_task 2 2 ''y'') \<and>
   sched_key (sample_task 2 1 ''x'') =
     Min (sched_key ` {sample_task 5 1 ''w'', sample_task 2 2 ''y'', sample_task 2 1 ''x''})"
  using operator_less_lexicographic
    [where a = "sample_task 2 1 ''x''" and b = "sample_task 2 2 ''y''"
       and S = "{sample_task 5 1 ''w'', sample_task 2 2 ''y'', sample_task 2 1 ''x''}"
       and m = "sample_task 2 1 ''x''"]
  by (simp add: task_less_def sched_key_def min_def less_eq_prod_def)

subsection \<open>Equality looks at the request id and the priority only\<close>

text \<open>
  Claim C7. For any two tasks, \<open>a == b\<close> holds exactly when the request ids are equal and
  the priorities are equal. The fingerprint, the payload, the last-chunk flag, the status
  (and the embedding slot) play no role: changing them on either side leaves the outcome
  of the comparison unchanged.
\<close>

theorem operator_eq_request_and_priority:
  "(task_eq a b \<longleftrightarrow> cmpl_id a = cmpl_id b \<and> priority a = priority b) \<and>
   task_eq (a\<lparr>chunk_hash := h, input_chunk := p, is_last_chunk := l, status := s,
              embeddig := e\<rparr>) b = task_eq a b \<and>
   task_eq a (b\<lparr>chunk_hash := h, input_chunk := p, is_last_chunk := l, status := s,
                embeddig := e\<rparr>) = task_eq a b"
  by (simp add: task_eq_def)

subsection \<open>Tasks of one request are not told apart\<close>

text \<open>
  Claim C8. There are two tasks with the same request id and the same priority but
  different fingerprints that the operators treat as equivalent: \<open>a == b\<close> holds and
  neither \<open>a < b\<close> nor \<open>b < a\<close> does. No third key tells the chunks of one request at
  one priority apart.
\<close>

theorem same_request_chunks_order_equivalent:
  "\<exists>a b. cmpl_id a = cmpl_id b \<and> priority a = priority b \<and> chunk_hash a \<noteq> chunk_hash b \<and>
         task_eq a b \<and> \<not> task_less a b \<and> \<not> task_less b a"
proof (intro exI conjI)
  let ?a = "sample_task 0 7 ''h0''" and ?b = "sample_task 0 7 ''h1''"
  show "cmpl_id ?a = cmpl_id ?b" "priority ?a = priority ?b" "chunk_hash ?a \<noteq> chunk_hash ?b"
    by simp_all
  show "task_eq ?a ?b" "\<not> task_less ?a ?b" "\<not> task_less ?b ?a"
    by (simp_all add: task_eq_def task_less_def)
qed

subsection \<open>Equality agrees with the order\<close>

text \<open>
  Claim C10. \<open>a == b\<close> holds if and only if neither \<open>a < b\<close> nor \<open>b < a\<close> holds; \<open><\<close> is
  irreflexive, transitive and total up to \<open>==\<close>; so for any two tasks exactly one of
  \<open>a < b\<close>, \<open>b < a\<close> and \<open>a == b\<close> holds.
\<close>

theorem operator_eq_consistent_with_less:
  "(task_eq a b \<longleftrightarrow> \<not> task_less a b \<and> \<not> task_less b a) \<and>
   \<not> task_less a a \<and>
   (task_less a b \<and> task_less b c \<longrightarrow> task_less a c) \<and>
   (task_less a b \<or> task_less b a \<or> task_eq a b) \<and>
   \<not> (task_less a b \<and> task_less b a) \<and>
   \<not> (task_less a b \<and> task_eq a b) \<and>
   \<not> (task_less b a \<and> task_eq a b)"
proof (intro conjI)
  show "task_eq a b \<longleftrightarrow> \<not> task_less a b \<and> \<not> task_less b a"
    by (rule task_eq_iff_incomparable)
  show "\<not> task_less a a"
    by (rule task_less_irrefl)
  show "task_less a b \<and> task_less b c \<longrightarrow> task_less a c"
    by (blast intro: task_less_trans)
  show "task_less a b \<or> task_less b a \<or> task_eq a b"
    by (rule task_trichotomy)
  show "\<not> (task_less a b \<and> task_less b a)"
    by (blast dest: task_less_trans task_less_irrefl [THEN notE])
  show "\<not> (task_less a b \<and> task_eq a b)" "\<not> (task_less b a \<and> task_eq a b)"
    by (simp_all add: task_eq_iff_incomparable)
qed

text \<open>Three tasks in increasing order; the first has a negative priority.\<close>

theorem operator_eq_consistent_with_less_witness:
  "task_less (sample_task (- 1) 9 ''a'') (sample_task 0 3 ''b'') \<and>
   task_less (sample_task 0 3 ''b'') (sample_task 0 4 ''c'') \<and>
   task_less (sample_task (- 1) 9 ''a'') (sample_task 0 4 ''c'') \<and>
   \<not> task_eq (sample_task (- 1) 9 ''a'') (sample_task 0 3 ''b'')"
  using operator_eq_consistent_with_less
    [of "sample_task (- 1) 9 ''a''" "sample_task 0 3 ''b''" "sample_task 0 4 ''c''"]
  by (simp add: task_less_def)

section \<open>Properties of the batch builder\<close>

subsection \<open>The loop\<close>


lemma fold_max_upper: "x \<in> set xs \<Longrightarrow> x \<le> fold max xs (a::nat)"
  by (simp add: Max.set_eq_fold [symmetric])

lemma fresh_unused: "map_of h (fresh h) = None"
proof -
  have "fresh h \<notin> fst ` set h"
  proof
    assume "fresh h \<in> fst ` set h"
    then have "fresh h \<in> set (map fst h)" by simp
    then have "fresh h \<le> fold max (map fst h) 0" by (rule fold_max_upper)
    then show False by (simp add: fresh_def)
  qed
  then show ?thesis by (simp add: map_of_eq_None_iff)
qed

lemma mark_back_snoc: "mark_back (ts @ [t]) = ts @ [t\<lparr>is_last_chunk := True\<rparr>]"
  by (simp add: mark_back_def)

declare build_loop.simps [simp del]

lemma build_loop_done:
  "\<not> i < length chunks \<Longrightarrow> build_loop chunks hashs cid prio i ts w = Inr (ts, w)"
  by (subst build_loop.simps) simp

lemma build_loop_step:
  assumes "i < length chunks" "i < length hashs" "map_of (heap w) (chunks ! i) = Some v"
  shows "build_loop chunks hashs cid prio i ts w =
         build_loop chunks hashs cid prio (Suc i)
           (ts @ [built_task (fresh (heap w)) cid (hashs ! i) prio (i = length chunks - 1)])
           (w\<lparr>heap := (fresh (heap w), v) # heap w,
              calls := calls w @ [Call_mtmd_input_chunk_copy (chunks ! i)]\<rparr>)"
  using assms
  by (subst build_loop.simps)
     (simp add: mtmd_input_chunk_copy_def Let_def mark_back_snoc new_SycChunkTask_def built_task_def)

lemma build_loop_correct:
  assumes "i \<le> length chunks" "length chunks \<le> length hashs"
    and "\<forall>p\<in>set chunks. map_of (heap w) p \<noteq> None"
  shows "\<exists>res w'. build_loop chunks hashs cid prio i ts w = Inr (ts @ res, w') \<and>
          length res = length chunks - i \<and>
          (\<forall>k<length chunks - i. \<exists>a.
              res ! k = built_task a cid (hashs ! (i + k)) prio (i + k = length chunks - 1) \<and>
              map_of (heap w) a = None \<and>
              map_of (heap w') a = map_of (heap w) (chunks ! (i + k))) \<and>
          (\<forall>p. map_of (heap w) p \<noteq> None \<longrightarrow> map_of (heap w') p = map_of (heap w) p) \<and>
          distinct (map input_chunk res) \<and>
          calls w' = calls w @ map Call_mtmd_input_chunk_copy (drop i chunks)"
  using assms
proof (induction "length chunks - i" arbitrary: i ts w)
  case 0
  then have "\<not> i < length chunks" by simp
  then have "build_loop chunks hashs cid prio i ts w = Inr (ts @ [], w)"
    by (simp add: build_loop_done)
  with 0 show ?case by auto
next
  case (Suc d)
  let ?n = "length chunks"
  from Suc.hyps(2) have i: "i < ?n" by simp
  with Suc.prems have ih: "i < length hashs" by simp
  from i have "chunks ! i \<in> set chunks" by simp
  with Suc.prems(3) obtain v where v: "map_of (heap w) (chunks ! i) = Some v"
    by blast
  let ?a0 = "fresh (heap w)"
  let ?t0 = "built_task ?a0 cid (hashs ! i) prio (i = ?n - 1)"
  let ?w1 = "w\<lparr>heap := (?a0, v) # heap w,
                calls := calls w @ [Call_mtmd_input_chunk_copy (chunks ! i)]\<rparr>"
  have a0: "map_of (heap w) ?a0 = None" by (rule fresh_unused)
  have keep1: "map_of (heap ?w1) p = map_of (heap w) p" if "map_of (heap w) p \<noteq> None" for p
    using that a0 by auto
  have step: "build_loop chunks hashs cid prio i ts w =
              build_loop chunks hashs cid prio (Suc i) (ts @ [?t0]) ?w1"
    using i ih v by (rule build_loop_step)
  have d: "d = ?n - Suc i" using Suc.hyps(2) by simp
  have live1: "\<forall>p\<in>set chunks. map_of (heap ?w1) p \<noteq> None"
    using Suc.prems(3) by (simp add: keep1)
  from Suc.hyps(1) [OF d _ Suc.prems(2) live1, of "ts @ [?t0]"] i
  obtain res1 w' where
    run: "build_loop chunks hashs cid prio (Suc i) (ts @ [?t0]) ?w1 = Inr ((ts @ [?t0]) @ res1, w')"
    and len: "length res1 = ?n - Suc i"
    and tasks: "\<forall>k<?n - Suc i. \<exists>a.
              res1 ! k = built_task a cid (hashs ! (Suc i + k)) prio (Suc i + k = ?n - 1) \<and>
              map_of (heap ?w1) a = None \<and>
              map_of (heap w') a = map_of (heap ?w1) (chunks ! (Suc i + k))"
    and keep: "\<forall>p. map_of (heap ?w1) p \<noteq> None \<longrightarrow> map_of (heap w') p = map_of (heap ?w1) p"
    and dist: "distinct (map input_chunk res1)"
    and log: "calls w' = calls ?w1 @ map Call_mtmd_input_chunk_copy (drop (Suc i) chunks)"
    by auto
  have "build_loop chunks hashs cid prio i ts w = Inr (ts @ (?t0 # res1), w')"
    using step run by simp
  moreover have "length (?t0 # res1) = ?n - i"
    using len i by simp
  moreover have "\<forall>k<?n - i. \<exists>a.
              (?t0 # res1) ! k = built_task a cid (hashs ! (i + k)) prio (i + k = ?n - 1) \<and>
              map_of (heap w) a = None \<and>
              map_of (heap w') a = map_of (heap w) (chunks ! (i + k))"
  proof (intro allI impI)
    fix k assume k: "k < ?n - i"
    show "\<exists>a. (?t0 # res1) ! k = built_task a cid (hashs ! (i + k)) prio (i + k = ?n - 1) \<and>
              map_of (heap w) a = None \<and>
              map_of (heap w') a = map_of (heap w) (chunks ! (i + k))"
    proof (cases k)
      case 0
      have "map_of (heap w') ?a0 = map_of (heap ?w1) ?a0"
        using keep by simp
      then have "map_of (heap w') ?a0 = map_of (heap w) (chunks ! i)"
        using v by simp
      with 0 a0 show ?thesis by auto
    next
      case (Suc k')
      with k have k': "k' < ?n - Suc i" by simp
      with tasks obtain a where
        a: "res1 ! k' = built_task a cid (hashs ! (Suc i + k')) prio (Suc i + k' = ?n - 1)"
        "map_of (heap ?w1) a = None"
        "map_of (heap w') a = map_of (heap ?w1) (chunks ! (Suc i + k'))"
        by blast
      from k' have "chunks ! (Suc i + k') \<in> set chunks" by simp
      with Suc.prems(3) have "map_of (heap w) (chunks ! (Suc i + k')) \<noteq> None" by blast
      then have "map_of (heap ?w1) (chunks ! (Suc i + k')) = map_of (heap w) (chunks ! (Suc i + k'))"
        by (rule keep1)
      moreover from a(2) have "map_of (heap w) a = None"
        by (simp split: if_splits)
      ultimately show ?thesis using a Suc by auto
    qed
  qed
  moreover have "\<forall>p. map_of (heap w) p \<noteq> None \<longrightarrow> map_of (heap w') p = map_of (heap w) p"
    using keep keep1 by (metis)
  moreover have "distinct (map input_chunk (?t0 # res1))"
  proof -
    have "Some ?a0 \<notin> input_chunk ` set res1"
    proof
      assume "Some ?a0 \<in> input_chunk ` set res1"
      then obtain k where k: "k < length res1" "input_chunk (res1 ! k) = Some ?a0"
        by (auto simp add: in_set_conv_nth)
      with tasks len obtain a where
        "res1 ! k = built_task a cid (hashs ! (Suc i + k)) prio (Suc i + k = ?n - 1)"
        "map_of (heap ?w1) a = None"
        by auto
      with k(2) show False by (simp add: built_task_def)
    qed
    with dist show ?thesis by (simp add: built_task_def)
  qed
  moreover have "calls w' = calls w @ map Call_mtmd_input_chunk_copy (drop i chunks)"
    using log i by (simp flip: Cons_nth_drop_Suc)
  ultimately show ?case by blast
qed


subsection \<open>The constructor\<close>

lemma deref_all_nth:
  "deref_all h ps = Some vs \<Longrightarrow>
     length vs = length ps \<and> (\<forall>i<length ps. map_of h (ps ! i) = Some (vs ! i))"
proof (induction ps arbitrary: vs)
  case Nil
  then show ?case by simp
next
  case (Cons p ps)
  then obtain v vs' where "map_of h p = Some v" "deref_all h ps = Some vs'" "vs = v # vs'"
    by (auto split: option.splits)
  with Cons.IH [of vs'] show ?case
    by (auto simp add: nth_Cons split: nat.splits)
qed

lemma deref_all_live: "deref_all h ps = Some vs \<Longrightarrow> \<forall>p\<in>set ps. map_of h p \<noteq> None"
  by (auto simp add: in_set_conv_nth dest!: deref_all_nth)

lemma new_BatchSchedulerInput_correct:
  assumes live: "deref_all (heap w) ptrs = Some vs"
    and hs: "length ptrs \<le> length (chunk_hashs vs)"
  shows "\<exists>ts w'.
          new_BatchSchedulerInput chunk_hashs (Some ptrs) cid prio_arg w =
            Inr (\<lparr>input_chunks = ts\<rparr>, w') \<and>
          length ts = length ptrs \<and>
          (\<forall>k<length ptrs. \<exists>a.
              ts ! k = built_task a cid (chunk_hashs vs ! k)
                         (case prio_arg of None \<Rightarrow> 0 | Some p \<Rightarrow> p) (k = length ptrs - 1) \<and>
              map_of (heap w) a = None \<and>
              map_of (heap w') a = Some (vs ! k)) \<and>
          (\<forall>p. map_of (heap w) p \<noteq> None \<longrightarrow> map_of (heap w') p = map_of (heap w) p) \<and>
          distinct (map input_chunk ts) \<and>
          calls w' = calls w @ Call_chunk_hashs # map Call_mtmd_input_chunk_copy ptrs"
proof -
  let ?w1 = "w\<lparr>calls := calls w @ [Call_chunk_hashs]\<rparr>"
  let ?prio = "case prio_arg of None \<Rightarrow> 0 | Some p \<Rightarrow> p"
  from live have "\<forall>p\<in>set ptrs. map_of (heap ?w1) p \<noteq> None"
    by (simp add: deref_all_live)
  from build_loop_correct [OF le0 hs this, of cid ?prio "[]"]
  obtain ts w' where
    run: "build_loop ptrs (chunk_hashs vs) cid ?prio 0 [] ?w1 = Inr (ts, w')"
    and len: "length ts = length ptrs"
    and tasks: "\<forall>k<length ptrs. \<exists>a.
              ts ! k = built_task a cid (chunk_hashs vs ! k) ?prio (k = length ptrs - 1) \<and>
              map_of (heap w) a = None \<and>
              map_of (heap w') a = map_of (heap w) (ptrs ! k)"
    and keep: "\<forall>p. map_of (heap w) p \<noteq> None \<longrightarrow> map_of (heap w') p = map_of (heap w) p"
    and dist: "distinct (map input_chunk ts)"
    and log: "calls w' = calls ?w1 @ map Call_mtmd_input_chunk_copy ptrs"
    by auto
  have "new_BatchSchedulerInput chunk_hashs (Some ptrs) cid prio_arg w =
          Inr (\<lparr>input_chunks = ts\<rparr>, w')"
    using live run by (simp add: new_BatchSchedulerInput_def)
  moreover have "\<forall>k<length ptrs. \<exists>a.
              ts ! k = built_task a cid (chunk_hashs vs ! k) ?prio (k = length ptrs - 1) \<and>
              map_of (heap w) a = None \<and>
              map_of (heap w') a = Some (vs ! k)"
    using tasks deref_all_nth [OF live] by auto
  moreover have "calls w' = calls w @ Call_chunk_hashs # map Call_mtmd_input_chunk_copy ptrs"
    using log by simp
  ultimately show ?thesis using len keep dist by blast
qed

lemma filter_only_last:
  assumes "ts \<noteq> []" "\<forall>i<length ts. P (ts ! i) \<longleftrightarrow> i = length ts - 1"
  shows "filter P ts = [last ts]"
proof -
  have "\<forall>x\<in>set (butlast ts). \<not> P x"
  proof
    fix x assume "x \<in> set (butlast ts)"
    then obtain i where i: "i < length (butlast ts)" "butlast ts ! i = x"
      by (auto simp add: in_set_conv_nth)
    then have "ts ! i = x" "i < length ts" "i \<noteq> length ts - 1"
      by (simp_all add: nth_butlast)
    with assms(2) show "\<not> P x" by blast
  qed
  then have "filter P (butlast ts) = []" by simp
  moreover have "P (last ts)"
    using assms by (simp add: last_conv_nth)
  moreover have "ts = butlast ts @ [last ts]"
    using assms(1) by simp
  ultimately show ?thesis
    by (metis append_Nil filter.simps filter_append)
qed

subsection \<open>The last chunk is marked, and only it\<close>

text \<open>
  Claim C2. For every non-empty chunk sequence (of live chunks, with a fingerprint for each),
  the batch the constructor produces has exactly one task with \<open>is_last_chunk\<close> set: the
  task at the last position of the input order. Every other task has the flag cleared.
\<close>

theorem last_chunk_marked_exactly_once:
  assumes "ptrs \<noteq> []"
    and "deref_all (heap w) ptrs = Some vs"
    and "length ptrs \<le> length (chunk_hashs vs)"
  shows "\<exists>b w'. new_BatchSchedulerInput chunk_hashs (Some ptrs) cid prio_arg w = Inr (b, w') \<and>
           length (input_chunks b) = length ptrs \<and>
           (\<forall>i<length ptrs. is_last_chunk (input_chunks b ! i) \<longleftrightarrow> i = length ptrs - 1) \<and>
           is_last_chunk (last (input_chunks b)) \<and>
           filter is_last_chunk (input_chunks b) = [last (input_chunks b)]"
proof -
  from new_BatchSchedulerInput_correct
    [where chunk_hashs = chunk_hashs and cid = cid and prio_arg = prio_arg, OF assms(2,3)]
  obtain ts w' where
    run: "new_BatchSchedulerInput chunk_hashs (Some ptrs) cid prio_arg w =
            Inr (\<lparr>input_chunks = ts\<rparr>, w')"
    and len: "length ts = length ptrs"
    and tasks: "\<forall>k<length ptrs. \<exists>a.
              ts ! k = built_task a cid (chunk_hashs vs ! k)
                         (case prio_arg of None \<Rightarrow> 0 | Some p \<Rightarrow> p) (k = length ptrs - 1) \<and>
              map_of (heap w) a = None \<and>
              map_of (heap w') a = Some (vs ! k)"
    by blast
  have flags: "\<forall>i<length ts. is_last_chunk (ts ! i) \<longleftrightarrow> i = length ts - 1"
  proof (intro allI impI)
    fix i assume "i < length ts"
    with len tasks obtain a where
      "ts ! i = built_task a cid (chunk_hashs vs ! i)
                  (case prio_arg of None \<Rightarrow> 0 | Some p \<Rightarrow> p) (i = length ptrs - 1)"
      by auto
    then show "is_last_chunk (ts ! i) \<longleftrightarrow> i = length ts - 1"
      by (simp add: built_task_def len)
  qed
  from assms(1) len have ne: "ts \<noteq> []" by auto
  have "filter is_last_chunk ts = [last ts]"
    using ne flags by (rule filter_only_last)
  moreover have "is_last_chunk (last ts)"
    using ne flags by (simp add: last_conv_nth)
  ultimately show ?thesis using run len flags by simp
qed

theorem last_chunk_marked_exactly_once_witness:
  "deref_all (heap sample_world) [1, 3, 1] = Some [''text'', ''image'', ''text''] \<and>
   (\<exists>b w'. new_BatchSchedulerInput (map (\<lambda>c. ''#'' @ c)) (Some [1, 3, 1]) 7 None sample_world =
             Inr (b, w') \<and>
           length (input_chunks b) = length [1, 3, 1 :: addr] \<and>
           (\<forall>i<length [1, 3, 1 :: addr].
               is_last_chunk (input_chunks b ! i) \<longleftrightarrow> i = length [1, 3, 1 :: addr] - 1) \<and>
           is_last_chunk (last (input_chunks b)) \<and>
           filter is_last_chunk (input_chunks b) = [last (input_chunks b)])"
proof -
  have ne: "[1, 3, 1 :: addr] \<noteq> []"
    by simp
  have live: "deref_all (heap sample_world) [1, 3, 1] = Some [''text'', ''image'', ''text'']"
    by (simp add: sample_world_def)
  have hs: "length [1, 3, 1 :: addr] \<le> length (map (\<lambda>c. ''#'' @ c) [''text'', ''image'', ''text''])"
    by simp
  show ?thesis
    using live
      last_chunk_marked_exactly_once
        [where chunk_hashs = "map (\<lambda>c. ''#'' @ c)" and cid = 7 and prio_arg = None, OF ne live hs]
    by (rule conjI)
qed

subsection \<open>Empty and null sequences\<close>

text \<open>
  Claim C3. If the chunk sequence is empty, the constructor returns an empty batch: the
  result holds no tasks and the construction ends without a fault. (The fingerprints of the
  empty sequence are asked for, and nothing is copied.)
\<close>

theorem empty_sequence_empty_batch:
  "new_BatchSchedulerInput chunk_hashs (Some []) cid prio_arg w =
     Inr (\<lparr>input_chunks = []\<rparr>, w\<lparr>calls := calls w @ [Call_chunk_hashs]\<rparr>)"
  by (simp add: new_BatchSchedulerInput_def build_loop_done)

text \<open>
  Claim C9. If the pointer to the chunk sequence is null, the constructor returns at once
  with an empty batch: no task is created, neither the hasher nor the chunk copy is called
  (the world, with its record of calls, is unchanged), and there is no fault.
\<close>

theorem null_sequence_empty_batch:
  "new_BatchSchedulerInput chunk_hashs None cid prio_arg w = Inr (\<lparr>input_chunks = []\<rparr>, w)"
  by (simp add: new_BatchSchedulerInput_def)


subsection \<open>One task per chunk\<close>

text \<open>
  Claim C5. For every non-null sequence of n (live) chunks, a request id and an optional
  priority, the constructor produces a batch of exactly n tasks, in input order. Task i
  holds a copy of chunk i at an address of its own (not in use before the call, so none of
  the producer's, and shared with no other task), while the producer's chunks stay as they
  were; its fingerprint is entry i of what \<open>chunk_hashs\<close> returns for the sequence, which
  is the hash of chunk i when that function hashes chunk by chunk; and it carries the given
  request id and the given priority, 0 when the priority is omitted.
\<close>

theorem builder_one_task_per_chunk:
  assumes "deref_all (heap w) ptrs = Some vs"
    and "length ptrs \<le> length (chunk_hashs vs)"
  shows "\<exists>b w'. new_BatchSchedulerInput chunk_hashs (Some ptrs) cid prio_arg w = Inr (b, w') \<and>
           length (input_chunks b) = length ptrs \<and>
           (\<forall>i<length ptrs. \<exists>a.
               input_chunk (input_chunks b ! i) = Some a \<and>
               a \<notin> set ptrs \<and> map_of (heap w) a = None \<and>
               map_of (heap w) (ptrs ! i) = Some (vs ! i) \<and>
               map_of (heap w') a = Some (vs ! i) \<and>
               chunk_hash (input_chunks b ! i) = chunk_hashs vs ! i \<and>
               (\<forall>hasher. chunk_hashs vs = map hasher vs \<longrightarrow>
                  chunk_hash (input_chunks b ! i) = hasher (vs ! i)) \<and>
               cmpl_id (input_chunks b ! i) = cid \<and>
               priority (input_chunks b ! i) = (case prio_arg of None \<Rightarrow> 0 | Some p \<Rightarrow> p)) \<and>
           distinct (map input_chunk (input_chunks b)) \<and>
           (\<forall>p. map_of (heap w) p \<noteq> None \<longrightarrow> map_of (heap w') p = map_of (heap w) p)"
proof -
  let ?prio = "case prio_arg of None \<Rightarrow> 0 | Some p \<Rightarrow> p"
  from new_BatchSchedulerInput_correct
    [where chunk_hashs = chunk_hashs and cid = cid and prio_arg = prio_arg, OF assms]
  obtain ts w' where
    run: "new_BatchSchedulerInput chunk_hashs (Some ptrs) cid prio_arg w =
            Inr (\<lparr>input_chunks = ts\<rparr>, w')"
    and len: "length ts = length ptrs"
    and tasks: "\<forall>k<length ptrs. \<exists>a.
              ts ! k = built_task a cid (chunk_hashs vs ! k) ?prio (k = length ptrs - 1) \<and>
              map_of (heap w) a = None \<and>
              map_of (heap w') a = Some (vs ! k)"
    and keep: "\<forall>p. map_of (heap w) p \<noteq> None \<longrightarrow> map_of (heap w') p = map_of (heap w) p"
    and dist: "distinct (map input_chunk ts)"
    by blast
  note nth = deref_all_nth [OF assms(1)]
  have "\<forall>i<length ptrs. \<exists>a.
               input_chunk (ts ! i) = Some a \<and>
               a \<notin> set ptrs \<and> map_of (heap w) a = None \<and>
               map_of (heap w) (ptrs ! i) = Some (vs ! i) \<and>
               map_of (heap w') a = Some (vs ! i) \<and>
               chunk_hash (ts ! i) = chunk_hashs vs ! i \<and>
               (\<forall>hasher. chunk_hashs vs = map hasher vs \<longrightarrow>
                  chunk_hash (ts ! i) = hasher (vs ! i)) \<and>
               cmpl_id (ts ! i) = cid \<and>
               priority (ts ! i) = ?prio"
  proof (intro allI impI)
    fix i assume i: "i < length ptrs"
    with tasks obtain a where
      a: "ts ! i = built_task a cid (chunk_hashs vs ! i) ?prio (i = length ptrs - 1)"
      "map_of (heap w) a = None" "map_of (heap w') a = Some (vs ! i)"
      by blast
    have "a \<notin> set ptrs"
      using a(2) deref_all_live [OF assms(1)] by blast
    moreover have "map_of (heap w) (ptrs ! i) = Some (vs ! i)"
      using nth i by simp
    moreover have "hasher (vs ! i) = chunk_hashs vs ! i" if "chunk_hashs vs = map hasher vs" for hasher
      using that nth i by simp
    ultimately show "\<exists>a.
               input_chunk (ts ! i) = Some a \<and>
               a \<notin> set ptrs \<and> map_of (heap w) a = None \<and>
               map_of (heap w) (ptrs ! i) = Some (vs ! i) \<and>
               map_of (heap w') a = Some (vs ! i) \<and>
               chunk_hash (ts ! i) = chunk_hashs vs ! i \<and>
               (\<forall>hasher. chunk_hashs vs = map hasher vs \<longrightarrow>
                  chunk_hash (ts ! i) = hasher (vs ! i)) \<and>
               cmpl_id (ts ! i) = cid \<and>
               priority (ts ! i) = ?prio"
      using a by (simp add: built_task_def)
  qed
  with run len dist keep show ?thesis by simp
qed

theorem builder_one_task_per_chunk_witness:
  "deref_all (heap sample_world) [1, 3, 1] = Some [''text'', ''image'', ''text''] \<and>
   (\<exists>b w'. new_BatchSchedulerInput (map (\<lambda>c. ''#'' @ c)) (Some [1, 3, 1]) 7 None sample_world =
             Inr (b, w') \<and>
           length (input_chunks b) = 3 \<and>
           chunk_hash (input_chunks b ! 1) = ''#image'' \<and>
           cmpl_id (input_chunks b ! 1) = 7 \<and>
           priority (input_chunks b ! 1) = 0 \<and>
           (\<exists>a. input_chunk (input_chunks b ! 1) = Some a \<and> a \<notin> {1, 3} \<and>
                map_of (heap w') a = Some ''image'') \<and>
           map_of (heap w') 3 = Some ''image'')"
proof -
  have live: "deref_all (heap sample_world) [1, 3, 1] = Some [''text'', ''image'', ''text'']"
    by (simp add: sample_world_def)
  have hs: "length [1, 3, 1 :: addr] \<le> length (map (\<lambda>c. ''#'' @ c) [''text'', ''image'', ''text''])"
    by simp
  have old: "map_of (heap sample_world) 3 = Some ''image''"
    by (simp add: sample_world_def)
  from builder_one_task_per_chunk
        [where chunk_hashs = "map (\<lambda>c. ''#'' @ c)" and cid = 7 and prio_arg = None, OF live hs]
  obtain b w' where
    run: "new_BatchSchedulerInput (map (\<lambda>c. ''#'' @ c)) (Some [1, 3, 1]) 7 None sample_world =
            Inr (b, w')"
    and len: "length (input_chunks b) = length [1, 3, 1 :: addr]"
    and tasks: "\<forall>i<length [1, 3, 1 :: addr]. \<exists>a.
               input_chunk (input_chunks b ! i) = Some a \<and>
               a \<notin> set [1, 3, 1] \<and> map_of (heap sample_world) a = None \<and>
               map_of (heap sample_world) ([1, 3, 1] ! i) = Some ([''text'', ''image'', ''text''] ! i) \<and>
               map_of (heap w') a = Some ([''text'', ''image'', ''text''] ! i) \<and>
               chunk_hash (input_chunks b ! i) =
                 map (\<lambda>c. ''#'' @ c) [''text'', ''image'', ''text''] ! i \<and>
               (\<forall>hasher. map (\<lambda>c. ''#'' @ c) [''text'', ''image'', ''text''] =
                    map hasher [''text'', ''image'', ''text''] \<longrightarrow>
                  chunk_hash (input_chunks b ! i) = hasher ([''text'', ''image'', ''text''] ! i)) \<and>
               cmpl_id (input_chunks b ! i) = 7 \<and>
               priority (input_chunks b ! i) = (case None of None \<Rightarrow> 0 | Some p \<Rightarrow> p)"
    and keep: "\<forall>p. map_of (heap sample_world) p \<noteq> None \<longrightarrow>
                 map_of (heap w') p = map_of (heap sample_world) p"
    by blast
  have "(1::nat) < length [1, 3, 1 :: addr]" by simp
  with tasks obtain a where
    "input_chunk (input_chunks b ! 1) = Some a" "a \<notin> set [1, 3, 1]"
    "map_of (heap w') a = Some ([''text'', ''image'', ''text''] ! 1)"
    "chunk_hash (input_chunks b ! 1) = map (\<lambda>c. ''#'' @ c) [''text'', ''image'', ''text''] ! 1"
    "cmpl_id (input_chunks b ! 1) = 7"
    "priority (input_chunks b ! 1) = (case None of None \<Rightarrow> 0 | Some p \<Rightarrow> p)"
    by blast
  moreover from keep old have "map_of (heap w') 3 = Some ''image''"
    by simp
  ultimately show ?thesis using live run len by auto
qed

subsection \<open>New tasks are pending\<close>

text \<open>
  Claim C6. Every task the constructor of the batch makes is in state PENDING and has an
  empty embedding slot: the constructor of the task leaves both at their defaults, and no
  step of the builder changes them.
\<close>

theorem built_tasks_pending_and_unfilled:
  assumes "deref_all (heap w) ptrs = Some vs"
    and "length ptrs \<le> length (chunk_hashs vs)"
  shows "status (new_SycChunkTask c cid' h p) = PENDING \<and>
         embeddig (new_SycChunkTask c cid' h p) = None \<and>
         (\<exists>b w'. new_BatchSchedulerInput chunk_hashs (Some ptrs) cid prio_arg w = Inr (b, w') \<and>
            length (input_chunks b) = length ptrs \<and>
            (\<forall>t\<in>set (input_chunks b). status t = PENDING \<and> embeddig t = None))"
proof -
  from new_BatchSchedulerInput_correct
    [where chunk_hashs = chunk_hashs and cid = cid and prio_arg = prio_arg, OF assms]
  obtain ts w' where
    run: "new_BatchSchedulerInput chunk_hashs (Some ptrs) cid prio_arg w =
            Inr (\<lparr>input_chunks = ts\<rparr>, w')"
    and len: "length ts = length ptrs"
    and tasks: "\<forall>k<length ptrs. \<exists>a.
              ts ! k = built_task a cid (chunk_hashs vs ! k)
                         (case prio_arg of None \<Rightarrow> 0 | Some p \<Rightarrow> p) (k = length ptrs - 1) \<and>
              map_of (heap w) a = None \<and>
              map_of (heap w') a = Some (vs ! k)"
    by blast
  have "\<forall>t\<in>set ts. status t = PENDING \<and> embeddig t = None"
  proof
    fix t assume "t \<in> set ts"
    then obtain k where "k < length ts" "ts ! k = t"
      by (auto simp add: in_set_conv_nth)
    with len tasks obtain a where
      "t = built_task a cid (chunk_hashs vs ! k)
             (case prio_arg of None \<Rightarrow> 0 | Some p \<Rightarrow> p) (k = length ptrs - 1)"
      by auto
    then show "status t = PENDING \<and> embeddig t = None"
      by (simp add: built_task_def)
  qed
  with run len show ?thesis
    by (simp add: new_SycChunkTask_def)
qed

theorem built_tasks_pending_and_unfilled_witness:
  "deref_all (heap sample_world) [3, 1] = Some [''image'', ''text''] \<and>
   (\<exists>b w'. new_BatchSchedulerInput (map (\<lambda>c. ''#'' @ c)) (Some [3, 1]) 9 (Some 2) sample_world =
             Inr (b, w') \<and>
           length (input_chunks b) = length [3, 1 :: addr] \<and>
           (\<forall>t\<in>set (input_chunks b). status t = PENDING \<and> embeddig t = None))"
proof -
  have live: "deref_all (heap sample_world) [3, 1] = Some [''image'', ''text'']"
    by (simp add: sample_world_def)
  have hs: "length [3, 1 :: addr] \<le> length (map (\<lambda>c. ''#'' @ c) [''image'', ''text''])"
    by simp
  show ?thesis
    using live
      built_tasks_pending_and_unfilled
        [where chunk_hashs = "map (\<lambda>c. ''#'' @ c)" and cid = 9 and prio_arg = "Some 2",
         OF live hs, THEN conjunct2, THEN conjunct2]
    by (rule conjI)
qed

section \<open>Properties of the status transitions\<close>

lemma transition_allowed_stage: "transition_allowed a b \<Longrightarrow> stage a < stage b"
  by (cases a; cases b) simp_all

lemma transition_allowed_not_terminal: "is_terminal a \<Longrightarrow> \<not> transition_allowed a b"
  by (cases a; cases b) (simp_all add: is_terminal_def)

lemma try_set_status_terminal: "is_terminal (status t) \<Longrightarrow> try_set_status s t = t"
  by (simp add: try_set_status_def transition_allowed_not_terminal)

lemma try_set_status_stage: "stage (status t) \<le> stage (status (try_set_status s t))"
  by (auto simp add: try_set_status_def dest: transition_allowed_stage)

lemma fold_try_set_status_terminal:
  "is_terminal (status t) \<Longrightarrow> fold try_set_status ss t = t"
  by (induction ss) (simp_all add: try_set_status_terminal)

lemma fold_try_set_status_stage:
  "stage (status t) \<le> stage (status (fold try_set_status ss t))"
proof (induction ss arbitrary: t)
  case Nil
  show ?case by simp
next
  case (Cons s ss)
  have "stage (status t) \<le> stage (status (try_set_status s t))"
    by (rule try_set_status_stage)
  also have "\<dots> \<le> stage (status (fold try_set_status ss (try_set_status s t)))"
    by (rule Cons.IH)
  finally show ?case by simp
qed

text \<open>
  Claim C4. The status of a task only moves forward along
  PENDING \<rightarrow> WAIT \<rightarrow> IN_PROGRESS \<rightarrow> COMPLETED | FAILED, whatever writes are attempted and in
  whatever order; and once the status is terminal, every further attempt to change it is a
  no-op: the terminal value is never overwritten.
\<close>

theorem status_only_moves_forward:
  "stage (status t) \<le> stage (status (fold try_set_status ss t)) \<and>
   (status (try_set_status s t) \<noteq> status t \<longrightarrow>
      status (try_set_status s t) = s \<and> transition_allowed (status t) s \<and>
      stage (status t) < stage s) \<and>
   (is_terminal (status t) \<longrightarrow> try_set_status s t = t \<and> fold try_set_status ss t = t)"
proof (intro conjI impI)
  show "stage (status t) \<le> stage (status (fold try_set_status ss t))"
    by (rule fold_try_set_status_stage)
next
  assume "status (try_set_status s t) \<noteq> status t"
  then have ok: "transition_allowed (status t) s"
    by (simp add: try_set_status_def split: if_splits)
  then show "status (try_set_status s t) = s" "transition_allowed (status t) s"
    "stage (status t) < stage s"
    by (simp_all add: try_set_status_def transition_allowed_stage)
next
  assume "is_terminal (status t)"
  then show "try_set_status s t = t" "fold try_set_status ss t = t"
    by (simp_all add: try_set_status_terminal fold_try_set_status_terminal)
qed

text \<open>A completed task stays completed under three further writes; a pending one may start to wait.\<close>

theorem status_only_moves_forward_witness:
  "is_terminal (status ((sample_task 0 1 ''h'')\<lparr>status := COMPLETED\<rparr>)) \<and>
   fold try_set_status [PENDING, IN_PROGRESS, FAILED]
     ((sample_task 0 1 ''h'')\<lparr>status := COMPLETED\<rparr>) =
   (sample_task 0 1 ''h'')\<lparr>status := COMPLETED\<rparr> \<and>
   status (try_set_status WAIT (sample_task 0 1 ''h'')) \<noteq> status (sample_task 0 1 ''h'') \<and>
   stage (status (sample_task 0 1 ''h'')) < stage WAIT"
proof -
  let ?done = "(sample_task 0 1 ''h'')\<lparr>status := COMPLETED\<rparr>"
  have terminal: "is_terminal (status ?done)"
    by (simp add: is_terminal_def)
  have moved: "status (try_set_status WAIT (sample_task 0 1 ''h'')) \<noteq> status (sample_task 0 1 ''h'')"
    by (simp add: try_set_status_def sample_task_def new_SycChunkTask_def)
  from terminal status_only_moves_forward [of ?done "[PENDING, IN_PROGRESS, FAILED]" WAIT]
  have "fold try_set_status [PENDING, IN_PROGRESS, FAILED] ?done = ?done"
    by blast
  moreover from moved status_only_moves_forward [of "sample_task 0 1 ''h''" "[]" WAIT]
  have "stage (status (sample_task 0 1 ''h'')) < stage WAIT"
    by blast
  ultimately show ?thesis
    using terminal moved by blast
qed


end
